theory Spec2Isabelle
  imports Complex_Main "HOL-Library.Multiset"
begin

section \<open>The mention leaderboard of leaderboard-boosted.ts\<close>

text \<open>
  The development embeds the ingestion and scoring pipeline of
  \<^verbatim>\<open>src/leaderboard-boosted.ts\<close> (lines 332 to 681): the Scorer
  \<^verbatim>\<open>calculateUserScore\<close>, the Fetcher \<^verbatim>\<open>fetchTwitterMentions\<close>, the merge
  of a fetched batch in \<^verbatim>\<open>fetchAllMentionsHistorical\<close> and the Aggregator
  \<^verbatim>\<open>scoreAndStore\<close>.

  Conventions of the embedding.
  \<^item> A TypeScript \<^verbatim>\<open>number\<close> is a rational; \<^verbatim>\<open>NaN\<close> and the infinities are not
    values of a stored record. Arithmetic is exact, with the literals \<^verbatim>\<open>0.001\<close>,
    \<^verbatim>\<open>0.5\<close>, \<^verbatim>\<open>0.25\<close> and \<^verbatim>\<open>1.25\<close> the fractions they denote, everywhere but in
    \<open>scoreLoop64\<close>, which repeats the loop of the Scorer with every operation
    rounded to a double. The two loops agree where no operation rounds (lemma
    \<open>scoreLoop64_whole\<close>); the property that compares the scores of two
    rankings is stated on \<open>scoreLoop64\<close>.
  \<^item> The \<^verbatim>\<open>Date\<close> built-ins are not part of the repository. The functions that
    need them take them as parameters: \<open>getTime s\<close> stands for
    \<^verbatim>\<open>new Date(s).getTime()\<close>, with \<open>None\<close> for the \<^verbatim>\<open>NaN\<close> of an unparsable
    date.
  \<^item> The fields \<^verbatim>\<open>id\<close> and \<^verbatim>\<open>text\<close> are written \<open>id'\<close> and \<open>text'\<close>.
\<close>

subsection \<open>Data model (lines 332 to 374)\<close>

record Tweet =
  id' :: string
  username :: string
  follower_count :: rat
  created_at :: string
  likes :: rat
  retweets :: rat
  text' :: string
  url :: string

record UserStats =
  username :: string
  totalScore :: rat
  tweetCount :: nat
  avgLikes :: rat
  avgRetweets :: rat
  topTweet :: Tweet
  lastActive :: string

record LeaderboardData =
  week :: string
  users :: "UserStats list"
  totalTweets :: nat
  mostViralTweet :: Tweet

record StorageData =
  tweets :: "Tweet list"
  lastFetch :: string
  leaderboards :: "LeaderboardData list"

subsection \<open>Array.prototype.sort\<close>

text \<open>
  \<^verbatim>\<open>xs.sort(cmp)\<close> is stable, and \<open>a\<close> stays before \<open>b\<close> unless \<open>cmp a b\<close> is
  positive. For a comparator that is a consistent ordering the result is the one
  stable sorted arrangement, which the insertion sort below computes. With an
  inconsistent comparator, as \<open>newestFirst\<close> is when an unparsable date stands
  beside parsable ones, the language leaves the order to the implementation,
  and the order of Node differs from the insertion order below. The properties
  that depend on the order assume dates that parse; \<^verbatim>\<open>scoreAndStore\<close> passes no
  other record, since \<^verbatim>\<open>getWeeklyTweets\<close> drops a record whose date does not
  parse.
\<close>

fun insertBy :: "('a \<Rightarrow> 'a \<Rightarrow> rat) \<Rightarrow> 'a \<Rightarrow> 'a list \<Rightarrow> 'a list" where
  "insertBy cmp x [] = [x]"
| "insertBy cmp x (y # ys) =
     (if cmp x y \<le> 0 then x # y # ys else y # insertBy cmp x ys)"

definition sortBy :: "('a \<Rightarrow> 'a \<Rightarrow> rat) \<Rightarrow> 'a list \<Rightarrow> 'a list" where
  "sortBy cmp xs = foldr (insertBy cmp) xs []"

subsection \<open>The Scorer: calculateUserScore (lines 575 to 593)\<close>

text \<open>
  The comparator of line 576, \<^verbatim>\<open>new Date(b.created_at).getTime() -
  new Date(a.created_at).getTime()\<close>. A difference with \<^verbatim>\<open>NaN\<close> is \<^verbatim>\<open>NaN\<close>, which
  \<^verbatim>\<open>sort\<close> reads as 0.
\<close>

definition newestFirst :: "(string \<Rightarrow> int option) \<Rightarrow> Tweet \<Rightarrow> Tweet \<Rightarrow> rat" where
  "newestFirst getTime a b =
     (case (getTime (created_at b), getTime (created_at a)) of
        (Some tb, Some ta) \<Rightarrow> of_int (tb - ta)
      | _ \<Rightarrow> 0)"

definition impactScore :: "Tweet \<Rightarrow> rat" where
  "impactScore tweet =
     (follower_count tweet * (1 / 1000)) + likes tweet + (retweets tweet * 2)"

definition freshnessMultiplier :: "nat \<Rightarrow> rat" where
  "freshnessMultiplier i = (if i = 0 then 3 else if i = 1 then 2 else 1)"

definition decayFactor :: "nat \<Rightarrow> rat" where
  "decayFactor i = (if i = 0 then 1 else if i = 1 then 1 / 2 else 1 / 4)"

text \<open>
  The \<^verbatim>\<open>for\<close> loop of lines 580 to 589, from index \<open>i\<close> with the running
  \<^verbatim>\<open>totalScore\<close> (here \<open>tot\<close>). An element of a \<open>Tweet list\<close> is never \<^verbatim>\<open>undefined\<close>, so the
  \<^verbatim>\<open>continue\<close> of line 582 has no branch.
\<close>

function scoreLoop :: "Tweet list \<Rightarrow> nat \<Rightarrow> rat \<Rightarrow> rat" where
  "scoreLoop sortedTweets i tot =
     (if i < length sortedTweets
      then scoreLoop sortedTweets (i + 1)
             (tot + impactScore (sortedTweets ! i) * freshnessMultiplier i * decayFactor i)
      else tot)"
  by pat_completeness auto
termination
  by (relation "measure (\<lambda>(sortedTweets, i, tot). length sortedTweets - i)") auto

declare scoreLoop.simps [simp del]

text \<open>
  \<^verbatim>\<open>userTweets[0]?.username\<close> is \<^verbatim>\<open>undefined\<close> on the empty array; the test
  \<^verbatim>\<open>username && previousWeekUsers.includes(username)\<close> is false for \<^verbatim>\<open>undefined\<close>
  and for the empty string.
\<close>

definition consistencyMultiplier :: "Tweet list \<Rightarrow> string list \<Rightarrow> rat" where
  "consistencyMultiplier userTweets previousWeekUsers =
     (case userTweets of
        [] \<Rightarrow> 1
      | t # _ \<Rightarrow>
          (if Tweet.username t \<noteq> [] \<and> Tweet.username t \<in> set previousWeekUsers
           then 5 / 4 else 1))"

definition calculateUserScore ::
  "(string \<Rightarrow> int option) \<Rightarrow> Tweet list \<Rightarrow> string list \<Rightarrow> rat" where
  "calculateUserScore getTime userTweets previousWeekUsers =
     (let sortedTweets = sortBy (newestFirst getTime) userTweets;
          tot = scoreLoop sortedTweets 0 0
      in tot * consistencyMultiplier userTweets previousWeekUsers)"

subsection \<open>The loop of the Scorer in double precision\<close>

text \<open>
  \<open>round64 x\<close> is the double nearest to \<open>x\<close>, ties to the even significand: with
  \<open>2^e \<le> |x| < 2^(e+1)\<close> the doubles around \<open>x\<close> are the multiples of \<open>2^(e-52)\<close>
  (of \<open>2^(-1074)\<close> in the subnormal range). Results beyond the largest double,
  which round to an infinity, are outside the model.
\<close>

fun bitLength :: "nat \<Rightarrow> nat" where
  "bitLength n = (if n = 0 then 0 else Suc (bitLength (n div 2)))"

declare bitLength.simps [simp del]

definition pow2 :: "int \<Rightarrow> rat" where
  "pow2 e = (if 0 \<le> e then 2 ^ nat e else 1 / 2 ^ nat (- e))"

definition ilog2 :: "rat \<Rightarrow> int" where
  "ilog2 x =
     (if 1 \<le> x then int (bitLength (nat \<lfloor>x\<rfloor>)) - 1
      else - int (bitLength (nat (\<lceil>1 / x\<rceil> - 1))))"

definition roundHalfEven :: "rat \<Rightarrow> int" where
  "roundHalfEven x =
     (let f = \<lfloor>x\<rfloor>; r = x - of_int f
      in if r < 1 / 2 then f else if 1 / 2 < r then f + 1 else if even f then f else f + 1)"

definition round64 :: "rat \<Rightarrow> rat" where
  "round64 x =
     (if x = 0 then 0
      else let q = pow2 (max (ilog2 \<bar>x\<bar>) (- 1022) - 52)
           in of_int (roundHalfEven (x / q)) * q)"

text \<open>
  Lines 584 to 588 with every product and sum rounded, in the order in which
  the expressions are evaluated; \<^verbatim>\<open>0.001\<close> is the double \<open>round64 (1 / 1000)\<close>,
  the other constants are doubles.
\<close>

definition impactScore64 :: "Tweet \<Rightarrow> rat" where
  "impactScore64 tweet =
     round64 (round64 (round64 (follower_count tweet * round64 (1 / 1000)) + likes tweet)
              + round64 (retweets tweet * 2))"

function scoreLoop64 :: "Tweet list \<Rightarrow> nat \<Rightarrow> rat \<Rightarrow> rat" where
  "scoreLoop64 sortedTweets i tot =
     (if i < length sortedTweets
      then scoreLoop64 sortedTweets (i + 1)
             (round64 (tot + round64 (round64 (impactScore64 (sortedTweets ! i) * freshnessMultiplier i)
                                      * decayFactor i)))
      else tot)"
  by pat_completeness auto
termination
  by (relation "measure (\<lambda>(sortedTweets, i, tot). length sortedTweets - i)") auto

declare scoreLoop64.simps [simp del]

subsection \<open>The Fetcher: fetchTwitterMentions (lines 469 to 526)\<close>

text \<open>
  The upstream payload has the type \<^verbatim>\<open>any\<close>. The model covers payloads whose
  entries are objects with fields of the types the search API documents, each
  field possibly absent. A value handed to \<^verbatim>\<open>safeNumber\<close> is \<^verbatim>\<open>undefined\<close>,
  \<^verbatim>\<open>null\<close>, a value that \<^verbatim>\<open>Number\<close> maps to the number \<open>r\<close>, or one that it maps
  to \<^verbatim>\<open>NaN\<close>. The optional chain \<^verbatim>\<open>public_metrics?.like_count\<close> is one field,
  \<open>Undefined\<close> when either part is missing.
\<close>

datatype jsvalue = Undefined | Null | Number rat | NotANumber

definition safeNumber :: "jsvalue \<Rightarrow> rat \<Rightarrow> rat" where
  "safeNumber v defaultValue =
     (case v of
        Undefined \<Rightarrow> defaultValue
      | Null \<Rightarrow> defaultValue
      | NotANumber \<Rightarrow> defaultValue
      | Number num \<Rightarrow> num)"

record RawTweet =
  tweet_id :: string
  author_id :: "string option"
  tweet_created_at :: string
  like_count :: jsvalue
  retweet_count :: jsvalue
  tweet_text :: "string option"

record RawUser =
  user_id :: "string option"
  user_username :: "string option"
  user_follower_count :: jsvalue

record TwitterResponse =
  data :: "RawTweet list option"
  includes_users :: "RawUser list option"
  meta_next_token :: "string option"

text \<open>
  The request of lines 481 to 488: the endpoint is a URL built from the four
  values below; \<^verbatim>\<open>next_token\<close> is added when \<^verbatim>\<open>nextToken\<close> is truthy.
\<close>

record Request =
  start_time :: string
  end_time :: string
  max_results :: nat
  next_token :: "string option"

text \<open>
  A string is truthy unless it is \<^verbatim>\<open>undefined\<close> or empty; \<open>orElse s d\<close> is
  \<^verbatim>\<open>s || d\<close>.
\<close>

definition truthy :: "string option \<Rightarrow> bool" where
  "truthy s = (case s of None \<Rightarrow> False | Some v \<Rightarrow> v \<noteq> [])"

definition orElse :: "string option \<Rightarrow> string \<Rightarrow> string" where
  "orElse s d = (case s of None \<Rightarrow> d | Some v \<Rightarrow> if v = [] then d else v)"

definition maxPages :: nat where
  "maxPages = 10"

text \<open>
  The \<^verbatim>\<open>do ... while\<close> loop of lines 477 to 503. \<open>callIntegration n req\<close> is the
  answer to the \<open>n\<close>-th request of the call, parsed; \<open>None\<close> when the request or
  \<^verbatim>\<open>JSON.parse\<close> throws, which the \<^verbatim>\<open>catch\<close> of line 522 receives. The result is
  the pair \<^verbatim>\<open>(allTweets, allUsers)\<close> at the exit of the loop.
\<close>

function fetchPages ::
  "(nat \<Rightarrow> Request \<Rightarrow> TwitterResponse option) \<Rightarrow> string \<Rightarrow> string \<Rightarrow> nat \<Rightarrow>
   RawTweet list \<Rightarrow> RawUser list \<Rightarrow> string option \<Rightarrow> nat \<Rightarrow>
   (RawTweet list \<times> RawUser list) option" where
  "fetchPages callIntegration startTime endTime maxResults allTweets allUsers nextToken pageCount =
     (case callIntegration (pageCount + 1)
             \<lparr>start_time = startTime, end_time = endTime, max_results = maxResults,
              next_token = (if truthy nextToken then nextToken else None)\<rparr> of
        None \<Rightarrow> None
      | Some responseData \<Rightarrow>
          (if truthy (meta_next_token responseData) \<and> pageCount + 1 < maxPages
           then fetchPages callIntegration startTime endTime maxResults
                  (allTweets @ (case data responseData of Some d \<Rightarrow> d | None \<Rightarrow> []))
                  (allUsers @ (case includes_users responseData of Some u \<Rightarrow> u | None \<Rightarrow> []))
                  (meta_next_token responseData) (pageCount + 1)
           else Some (allTweets @ (case data responseData of Some d \<Rightarrow> d | None \<Rightarrow> []),
                      allUsers @ (case includes_users responseData of Some u \<Rightarrow> u | None \<Rightarrow> []))))"
  by pat_completeness auto
termination
  by (relation "measure (\<lambda>(c, s, e, m, ts, us, tok, pageCount). maxPages - pageCount)") auto

declare fetchPages.simps [simp del]

text \<open>
  The join of lines 507 to 519. \<^verbatim>\<open>allUsers.find\<close> takes the first user whose \<^verbatim>\<open>id\<close>
  is strictly equal to the tweet's \<^verbatim>\<open>author_id\<close> (two absent values are equal).
  In the URL a missing name prints as \<^verbatim>\<open>undefined\<close>.
\<close>

definition processTweet :: "RawUser list \<Rightarrow> RawTweet \<Rightarrow> Tweet" where
  "processTweet allUsers tweet =
     (let author = find (\<lambda>user. user_id user = author_id tweet) allUsers;
          name = (case author of None \<Rightarrow> None | Some a \<Rightarrow> user_username a)
      in \<lparr>id' = tweet_id tweet,
          username = orElse name ''unknown'',
          follower_count =
            safeNumber (case author of None \<Rightarrow> Undefined | Some a \<Rightarrow> user_follower_count a) 0,
          created_at = tweet_created_at tweet,
          likes = safeNumber (like_count tweet) 0,
          retweets = safeNumber (retweet_count tweet) 0,
          text' = orElse (tweet_text tweet) [],
          url = ''https://twitter.com/''
                  @ (case name of None \<Rightarrow> ''undefined'' | Some n \<Rightarrow> n)
                  @ ''/status/'' @ tweet_id tweet\<rparr>)"

definition fetchTwitterMentions ::
  "(nat \<Rightarrow> Request \<Rightarrow> TwitterResponse option) \<Rightarrow> string \<Rightarrow> string \<Rightarrow> nat \<Rightarrow> Tweet list" where
  "fetchTwitterMentions callIntegration startTime endTime maxResults =
     (case fetchPages callIntegration startTime endTime maxResults [] [] None 0 of
        None \<Rightarrow> []
      | Some (allTweets, allUsers) \<Rightarrow>
          filter (\<lambda>tweet. Tweet.username tweet \<noteq> ''unknown'')
            (map (processTweet allUsers) allTweets))"

subsection \<open>The Store and the merge of a batch (lines 422 to 432 and 537 to 543)\<close>

text \<open>
  \<^verbatim>\<open>load\<close> reads the file; a missing or unreadable file gives the default of
  line 431. \<^verbatim>\<open>save\<close> writes the whole structure. The functions below work on
  the loaded structure and return the structure that is saved.
\<close>

definition emptyStorage :: StorageData where
  "emptyStorage = \<lparr>tweets = [], lastFetch = ''1970-01-01T00:00:00.000Z'', leaderboards = []\<rparr>"

definition load :: "StorageData option \<Rightarrow> StorageData" where
  "load file = (case file of Some d \<Rightarrow> d | None \<Rightarrow> emptyStorage)"

text \<open>
  Lines 537 to 543 of \<^verbatim>\<open>fetchAllMentionsHistorical\<close> (lines 564 to 569 of
  \<^verbatim>\<open>fetchLatestMentionsLive\<close> are the same): \<open>fetched\<close> is the list returned by
  \<^verbatim>\<open>fetchTwitterMentions\<close>, \<open>now\<close> the value of \<^verbatim>\<open>new Date().toISOString()\<close>.
\<close>

definition newTweets :: "StorageData \<Rightarrow> Tweet list \<Rightarrow> Tweet list" where
  "newTweets d fetched = filter (\<lambda>t. id' t \<notin> set (map id' (tweets d))) fetched"

definition mergeTweets :: "StorageData \<Rightarrow> Tweet list \<Rightarrow> string \<Rightarrow> StorageData" where
  "mergeTweets d fetched now =
     d\<lparr>tweets := tweets d @ newTweets d fetched, lastFetch := now\<rparr>"

subsection \<open>The Aggregator: scoreAndStore (lines 595 to 681)\<close>

text \<open>
  What \<^verbatim>\<open>scoreAndStore\<close> reads from outside the repository: the parsing of dates
  (\<open>toTime\<close>, as \<open>getTime\<close> above), \<^verbatim>\<open>subDays\<close> of date-fns on instants in
  milliseconds, the two readings of the clock inside \<^verbatim>\<open>getWeeklyTweets(0)\<close> and
  \<^verbatim>\<open>getWeeklyTweets(1)\<close>, the value of \<^verbatim>\<open>new Date().toISOString()\<close> and the value
  of \<^verbatim>\<open>getWeekKey()\<close> at line 664, whose calendar arithmetic is done by
  \<^verbatim>\<open>Date\<close>.
\<close>

record Env =
  toTime :: "string \<Rightarrow> int option"
  subDays :: "int \<Rightarrow> int \<Rightarrow> int"
  nowCurrent :: int
  nowPrevious :: int
  nowISO :: string
  weekKey :: string

datatype error = TypeError

text \<open>
  Lines 442 to 452. A comparison with an invalid date is false.
\<close>

definition getWeeklyTweets ::
  "(string \<Rightarrow> int option) \<Rightarrow> (int \<Rightarrow> int \<Rightarrow> int) \<Rightarrow> int \<Rightarrow> StorageData \<Rightarrow> int \<Rightarrow> Tweet list" where
  "getWeeklyTweets getTime subDaysOf now d weekOffset =
     (let weekStart = subDaysOf now (7 + (weekOffset * 7));
          weekEnd = subDaysOf now (weekOffset * 7)
      in filter (\<lambda>tweet.
           case getTime (created_at tweet) of
             None \<Rightarrow> False
           | Some tweetDate \<Rightarrow> weekStart \<le> tweetDate \<and> tweetDate < weekEnd)
         (tweets d))"

text \<open>
  Lines 406 to 413; on a \<open>Tweet\<close> the tests on the types hold.
\<close>

definition isValidTweet :: "Tweet \<Rightarrow> bool" where
  "isValidTweet tweet =
     (Tweet.username tweet \<noteq> ''unknown'' \<and> Tweet.username tweet \<noteq> [])"

text \<open>
  Lines 606 to 616. \<^verbatim>\<open>tweetsByUser\<close> is an object literal, so a key is also looked
  up in \<^verbatim>\<open>Object.prototype\<close>: for a handle that names one of its properties
  \<^verbatim>\<open>tweetsByUser[key]\<close> is truthy, no array is stored and the call of \<^verbatim>\<open>push\<close>
  throws a \<^verbatim>\<open>TypeError\<close>. The own properties are kept as an association list
  in the order of their creation.
\<close>

definition inheritedKeys :: "string list" where
  "inheritedKeys =
     [''constructor'', ''__proto__'', ''hasOwnProperty'', ''isPrototypeOf'',
      ''propertyIsEnumerable'', ''toLocaleString'', ''toString'', ''valueOf'',
      ''__defineGetter__'', ''__defineSetter__'', ''__lookupGetter__'', ''__lookupSetter__'']"

definition groupStep ::
  "(string \<times> Tweet list) list \<Rightarrow> Tweet \<Rightarrow> error + (string \<times> Tweet list) list" where
  "groupStep tweetsByUser tweet =
     (if Tweet.username tweet \<in> set inheritedKeys then Inl TypeError
      else if Tweet.username tweet \<in> set (map fst tweetsByUser)
      then Inr (map (\<lambda>(k, v). if k = Tweet.username tweet then (k, v @ [tweet]) else (k, v))
                  tweetsByUser)
      else Inr (tweetsByUser @ [(Tweet.username tweet, [tweet])]))"

fun groupTweets ::
  "(string \<times> Tweet list) list \<Rightarrow> Tweet list \<Rightarrow> error + (string \<times> Tweet list) list" where
  "groupTweets tweetsByUser [] = Inr tweetsByUser"
| "groupTweets tweetsByUser (tweet # rest) =
     (case groupStep tweetsByUser tweet of
        Inl e \<Rightarrow> Inl e
      | Inr tweetsByUser' \<Rightarrow> groupTweets tweetsByUser' rest)"

text \<open>
  \<^verbatim>\<open>Object.entries\<close> lists the keys that are array indices (canonical decimal
  numerals below \<open>2^32 - 1\<close>) first, in ascending numeric order, and then the
  other keys in the order of their creation.
\<close>

definition decimal :: "string \<Rightarrow> nat" where
  "decimal s = foldl (\<lambda>n c. 10 * n + (of_char c - 48)) 0 s"

definition isArrayIndex :: "string \<Rightarrow> bool" where
  "isArrayIndex s =
     (s \<noteq> [] \<and> list_all (\<lambda>c. c \<in> set ''0123456789'') s
      \<and> (s = ''0'' \<or> hd s \<noteq> CHR ''0'') \<and> decimal s < 2 ^ 32 - 1)"

definition objectEntries :: "(string \<times> 'a) list \<Rightarrow> (string \<times> 'a) list" where
  "objectEntries obj =
     sort_key (\<lambda>(k, v). decimal k) (filter (\<lambda>(k, v). isArrayIndex k) obj)
       @ filter (\<lambda>(k, v). \<not> isArrayIndex k) obj"

text \<open>
  \<^verbatim>\<open>[...new Set(xs)]\<close> keeps the first occurrence of each element, in order.
\<close>

definition uniqueInOrder :: "'a list \<Rightarrow> 'a list" where
  "uniqueInOrder xs = rev (remdups (rev xs))"

text \<open>
  The callback of the two \<^verbatim>\<open>reduce\<close> calls (lines 627 to 629 and 647 to 649), and
  \<^verbatim>\<open>reduce\<close> without an initial value on a non-empty array.
\<close>

definition engagement :: "Tweet \<Rightarrow> rat" where
  "engagement t = likes t + retweets t * 2"

definition moreViral :: "Tweet \<Rightarrow> Tweet \<Rightarrow> Tweet" where
  "moreViral best current = (if engagement current > engagement best then current else best)"

definition reduceViral :: "Tweet \<Rightarrow> Tweet list \<Rightarrow> Tweet" where
  "reduceViral first rest = foldl moreViral first rest"

text \<open>
  The callback of \<^verbatim>\<open>map\<close> at lines 621 to 640; \<open>None\<close> is its \<^verbatim>\<open>null\<close>.
\<close>

definition userStat ::
  "(string \<Rightarrow> int option) \<Rightarrow> string \<Rightarrow> string list \<Rightarrow> string \<times> Tweet list \<Rightarrow> UserStats option" where
  "userStat getTime isoNow previousWeekUsers entry =
     (case snd entry of
        [] \<Rightarrow> None
      | first # rest \<Rightarrow>
          Some \<lparr>username = fst entry,
                totalScore = calculateUserScore getTime (first # rest) previousWeekUsers,
                tweetCount = length (first # rest),
                avgLikes = sum_list (map likes (first # rest)) / of_nat (length (first # rest)),
                avgRetweets = sum_list (map retweets (first # rest)) / of_nat (length (first # rest)),
                topTweet = reduceViral first rest,
                lastActive = (if created_at first = [] then isoNow else created_at first)\<rparr>)"

definition keepScored :: "UserStats option list \<Rightarrow> UserStats list" where
  "keepScored stats =
     List.map_filter (\<lambda>stat. case stat of
         None \<Rightarrow> None
       | Some s \<Rightarrow> if totalScore s > 0 then Some s else None) stats"

definition byScore :: "UserStats \<Rightarrow> UserStats \<Rightarrow> rat" where
  "byScore a b = totalScore b - totalScore a"

definition dummyTweet :: "string \<Rightarrow> Tweet" where
  "dummyTweet isoNow =
     \<lparr>id' = ''dummy'', username = ''none'', follower_count = 0, created_at = isoNow,
      likes = 0, retweets = 0, text' = ''No tweets this week'', url = []\<rparr>"

text \<open>
  Lines 606 to 668: the snapshot built from a non-empty current week, or the
  \<^verbatim>\<open>TypeError\<close> of the grouping.
\<close>

definition buildLeaderboard :: "Env \<Rightarrow> StorageData \<Rightarrow> error + LeaderboardData" where
  "buildLeaderboard env d =
     (let currentWeekTweets = getWeeklyTweets (toTime env) (subDays env) (nowCurrent env) d 0;
          previousWeekTweets = getWeeklyTweets (toTime env) (subDays env) (nowPrevious env) d 1
      in case groupTweets [] (filter isValidTweet currentWeekTweets) of
           Inl e \<Rightarrow> Inl e
         | Inr tweetsByUser \<Rightarrow>
             (let previousWeekUsers = uniqueInOrder (map Tweet.username previousWeekTweets);
                  userStats = sortBy byScore
                    (keepScored (map (userStat (toTime env) (nowISO env) previousWeekUsers)
                       (objectEntries tweetsByUser)));
                  mostViral = (case currentWeekTweets of
                                 [] \<Rightarrow> dummyTweet (nowISO env)
                               | first # rest \<Rightarrow> reduceViral first rest)
              in Inr \<lparr>week = weekKey env, users = userStats,
                      totalTweets = length currentWeekTweets, mostViralTweet = mostViral\<rparr>))"

text \<open>
  Lines 670 to 678. \<^verbatim>\<open>findIndex\<close> returns the first index or \<^verbatim>\<open>-1\<close>, here
  \<open>None\<close>; \<^verbatim>\<open>slice(-8)\<close> keeps the last eight elements, or all of a shorter list.
\<close>

fun findIndex :: "('a \<Rightarrow> bool) \<Rightarrow> 'a list \<Rightarrow> nat option" where
  "findIndex p [] = None"
| "findIndex p (x # xs) =
     (if p x then Some 0 else map_option Suc (findIndex p xs))"

definition storeLeaderboard :: "LeaderboardData list \<Rightarrow> LeaderboardData \<Rightarrow> LeaderboardData list" where
  "storeLeaderboard lbs leaderboardData =
     (let updated = (case findIndex (\<lambda>lb. week lb = week leaderboardData) lbs of
                       Some existingIndex \<Rightarrow> lbs[existingIndex := leaderboardData]
                     | None \<Rightarrow> lbs @ [leaderboardData])
      in drop (length updated - 8) updated)"

definition scoreAndStore :: "Env \<Rightarrow> StorageData \<Rightarrow> error + StorageData" where
  "scoreAndStore env d =
     (if getWeeklyTweets (toTime env) (subDays env) (nowCurrent env) d 0 = [] then Inr d
      else case buildLeaderboard env d of
             Inl e \<Rightarrow> Inl e
           | Inr leaderboardData \<Rightarrow>
               Inr (d\<lparr>leaderboards := storeLeaderboard (leaderboards d) leaderboardData\<rparr>))"

text \<open>
  The stores that the program can hold: the default of a missing file, changed
  by merges of fetched batches and by aggregation cycles that return.
\<close>

inductive reachable :: "StorageData \<Rightarrow> bool" where
  start: "reachable emptyStorage"
| merge: "reachable d \<Longrightarrow> reachable (mergeTweets d fetched now)"
| cycle: "reachable d \<Longrightarrow> scoreAndStore env d = Inr d' \<Longrightarrow> reachable d'"

subsection \<open>Notions used to state the properties\<close>

text \<open>
  The current-week records that \<^verbatim>\<open>scoreAndStore\<close> reads at line 598, and the
  group of a handle: the valid current-week records of that handle, in the
  order of the store.
\<close>

definition currentWeek :: "Env \<Rightarrow> StorageData \<Rightarrow> Tweet list" where
  "currentWeek env d = getWeeklyTweets (toTime env) (subDays env) (nowCurrent env) d 0"

definition groupOf :: "Env \<Rightarrow> StorageData \<Rightarrow> string \<Rightarrow> Tweet list" where
  "groupOf env d u =
     filter (\<lambda>t. Tweet.username t = u) (filter isValidTweet (currentWeek env d))"

text \<open>
  Index \<open>i\<close> holds the first record of \<open>xs\<close> with the greatest engagement.
\<close>

definition firstMaxAt :: "Tweet list \<Rightarrow> nat \<Rightarrow> bool" where
  "firstMaxAt xs i =
     (i < length xs
      \<and> (\<forall>j < length xs. engagement (xs ! j) \<le> engagement (xs ! i))
      \<and> (\<forall>j < i. engagement (xs ! j) < engagement (xs ! i)))"

text \<open>
  The invariant of the grouping loop: after the records \<open>seen\<close>, the object
  holds one non-empty array per handle seen, with the records of that handle
  in order.
\<close>

definition grouped :: "(string \<times> Tweet list) list \<Rightarrow> Tweet list \<Rightarrow> bool" where
  "grouped g seen =
     (distinct (map fst g)
      \<and> (\<forall>e \<in> set g. snd e = filter (\<lambda>t. Tweet.username t = fst e) seen \<and> snd e \<noteq> [])
      \<and> (\<forall>t \<in> set seen. Tweet.username t \<in> set (map fst g)))"

text \<open>
  The pages that a call of the Fetcher follows, as the specification words it:
  the first request carries no cursor, each further request the cursor of the
  page before, until a page has no cursor or the page cap is reached; \<open>None\<close>
  when a request fails. \<open>entriesOf\<close> and \<open>usersOf\<close> are the tweet entries and
  the author entries of a page. An author resolves when the first user entry
  with the id of the tweet's author has a name that is not empty (and is not
  the sentinel \<^verbatim>\<open>unknown\<close> itself).
\<close>

definition entriesOf :: "TwitterResponse \<Rightarrow> RawTweet list" where
  "entriesOf page = (case data page of Some d \<Rightarrow> d | None \<Rightarrow> [])"

definition usersOf :: "TwitterResponse \<Rightarrow> RawUser list" where
  "usersOf page = (case includes_users page of Some u \<Rightarrow> u | None \<Rightarrow> [])"

function pagesFrom ::
  "(nat \<Rightarrow> Request \<Rightarrow> TwitterResponse option) \<Rightarrow> string \<Rightarrow> string \<Rightarrow> nat \<Rightarrow>
   string option \<Rightarrow> nat \<Rightarrow> TwitterResponse list option" where
  "pagesFrom upstream startTime endTime maxResults cursor n =
     (case upstream (n + 1)
             \<lparr>start_time = startTime, end_time = endTime, max_results = maxResults,
              next_token = (if truthy cursor then cursor else None)\<rparr> of
        None \<Rightarrow> None
      | Some page \<Rightarrow>
          (if truthy (meta_next_token page) \<and> n + 1 < maxPages
           then map_option ((#) page)
                  (pagesFrom upstream startTime endTime maxResults (meta_next_token page) (n + 1))
           else Some [page]))"
  by pat_completeness auto
termination
  by (relation "measure (\<lambda>(u, s, e, m, cursor, n). maxPages - n)") auto

declare pagesFrom.simps [simp del]

definition authorResolves :: "RawUser list \<Rightarrow> RawTweet \<Rightarrow> bool" where
  "authorResolves allUsers tweet =
     (case find (\<lambda>user. user_id user = author_id tweet) allUsers of
        None \<Rightarrow> False
      | Some author \<Rightarrow>
          (case user_username author of
             None \<Rightarrow> False
           | Some name \<Rightarrow> name \<noteq> [] \<and> name \<noteq> ''unknown''))"


subsection \<open>Sample data\<close>

text \<open>
  A clock reading of 2024-05-04T00:00:00Z, so that the current week is
  \<open>[04-27, 05-04)\<close> and the previous one \<open>[04-20, 04-27)\<close>; \<open>sampleTime\<close> parses
  the dates that occur below, and a day has 86400000 ms.
\<close>

definition sampleTime :: "string \<Rightarrow> int option" where
  "sampleTime s =
     map_of [(''2024-04-25T12:00:00.000Z'', 1714046400000),
             (''2024-05-01T12:00:00.000Z'', 1714564800000),
             (''2024-05-02T12:00:00.000Z'', 1714651200000),
             (''2024-05-03T12:00:00.000Z'', 1714737600000)] s"

definition sampleEnv :: Env where
  "sampleEnv =
     \<lparr>toTime = sampleTime, subDays = (\<lambda>t n. t - n * 86400000),
      nowCurrent = 1714780800000, nowPrevious = 1714780800001,
      nowISO = ''2024-05-04T00:00:00.001Z'', weekKey = ''2024-04-28''\<rparr>"

definition sampleTweet :: "string \<Rightarrow> string \<Rightarrow> rat \<Rightarrow> string \<Rightarrow> rat \<Rightarrow> rat \<Rightarrow> Tweet" where
  "sampleTweet i u f c l r =
     \<lparr>id' = i, username = u, follower_count = f, created_at = c, likes = l, retweets = r,
      text' = ''OpenServ'', url = ''https://twitter.com/'' @ u @ ''/status/'' @ i\<rparr>"

text \<open>The three records of the worked example, newest first.\<close>

definition exampleRecords :: "string \<Rightarrow> Tweet list" where
  "exampleRecords u =
     [sampleTweet ''103'' u 1000 ''2024-05-03T12:00:00.000Z'' 10 5,
      sampleTweet ''102'' u 0 ''2024-05-02T12:00:00.000Z'' 1 0,
      sampleTweet ''101'' u 0 ''2024-05-01T12:00:00.000Z'' 0 0]"



definition highestExchanged :: "Tweet list" where
  "highestExchanged =
     [sampleTweet ''2'' ''A'' 0 ''2024-05-03T12:00:00.000Z'' 9 0,
      sampleTweet ''3'' ''A'' 0 ''2024-05-03T12:00:00.000Z'' 0 0,
      sampleTweet ''4'' ''A'' 0 ''2024-05-03T12:00:00.000Z'' 10 0,
      sampleTweet ''1'' ''A'' 0 ''2024-05-03T12:00:00.000Z'' 8 0]"



text \<open>
  Two upstreams with two pages each. The first repeats the entry 11 on its
  second page; the second does not.
\<close>

definition sampleRaw :: "string \<Rightarrow> string \<Rightarrow> RawTweet" where
  "sampleRaw i c =
     \<lparr>tweet_id = i, author_id = Some ''7'', tweet_created_at = c, like_count = Number 2,
      retweet_count = Undefined, tweet_text = Some ''OpenServ''\<rparr>"

definition sampleUser :: RawUser where
  "sampleUser =
     \<lparr>user_id = Some ''7'', user_username = Some ''alice'', user_follower_count = Number 1000\<rparr>"

definition repeatingUpstream :: "nat \<Rightarrow> Request \<Rightarrow> TwitterResponse option" where
  "repeatingUpstream n req =
     (case next_token req of
        None \<Rightarrow> Some \<lparr>data = Some [sampleRaw ''12'' ''2024-05-03T12:00:00.000Z'',
                                     sampleRaw ''11'' ''2024-05-02T12:00:00.000Z''],
                       includes_users = Some [sampleUser], meta_next_token = Some ''page2''\<rparr>
      | Some tok \<Rightarrow>
          if tok = ''page2''
          then Some \<lparr>data = Some [sampleRaw ''11'' ''2024-05-02T12:00:00.000Z'',
                                   sampleRaw ''10'' ''2024-05-01T12:00:00.000Z''],
                     includes_users = Some [sampleUser], meta_next_token = None\<rparr>
          else None)"

definition pagedUpstream :: "nat \<Rightarrow> Request \<Rightarrow> TwitterResponse option" where
  "pagedUpstream n req =
     (case next_token req of
        None \<Rightarrow> Some \<lparr>data = Some [sampleRaw ''12'' ''2024-05-03T12:00:00.000Z'',
                                     sampleRaw ''11'' ''2024-05-02T12:00:00.000Z''],
                       includes_users = Some [sampleUser], meta_next_token = Some ''page2''\<rparr>
      | Some tok \<Rightarrow>
          if tok = ''page2''
          then Some \<lparr>data = Some [sampleRaw ''10'' ''2024-05-01T12:00:00.000Z''],
                     includes_users = None, meta_next_token = None\<rparr>
          else None)"

text \<open>
  A store filled by three fetches: a record of alice in the previous week,
  then her record of 05-01 with a record whose author did not resolve, then
  her record of 05-03 with one of bob. The records 21 and 23 tie within the
  group of alice, the records 22 and 24 tie for the whole week.
\<close>

definition sampleStore :: StorageData where
  "sampleStore =
     mergeTweets
       (mergeTweets
          (mergeTweets emptyStorage
             [sampleTweet ''20'' ''alice'' 1000 ''2024-04-25T12:00:00.000Z'' 1 0]
             ''2024-04-25T13:00:00.000Z'')
          [sampleTweet ''22'' ''unknown'' 0 ''2024-05-02T12:00:00.000Z'' 6 0,
           sampleTweet ''21'' ''alice'' 1000 ''2024-05-01T12:00:00.000Z'' 4 0]
          ''2024-05-02T13:00:00.000Z'')
       [sampleTweet ''23'' ''alice'' 1000 ''2024-05-03T12:00:00.000Z'' 2 1,
        sampleTweet ''24'' ''bob'' 0 ''2024-05-02T12:00:00.000Z'' 0 3]
       ''2024-05-03T13:00:00.000Z''"

definition sampleBoard :: LeaderboardData where
  "sampleBoard =
     \<lparr>week = ''2024-04-28'',
      users =
        [\<lparr>username = ''alice'', totalScore = 25, tweetCount = 2, avgLikes = 3,
          avgRetweets = 1 / 2,
          topTweet = sampleTweet ''21'' ''alice'' 1000 ''2024-05-01T12:00:00.000Z'' 4 0,
          lastActive = ''2024-05-01T12:00:00.000Z''\<rparr>,
         \<lparr>username = ''bob'', totalScore = 18, tweetCount = 1, avgLikes = 0,
          avgRetweets = 3,
          topTweet = sampleTweet ''24'' ''bob'' 0 ''2024-05-02T12:00:00.000Z'' 0 3,
          lastActive = ''2024-05-02T12:00:00.000Z''\<rparr>],
      totalTweets = 4,
      mostViralTweet = sampleTweet ''22'' ''unknown'' 0 ''2024-05-02T12:00:00.000Z'' 6 0\<rparr>"

definition scoredStore :: StorageData where
  "scoredStore = sampleStore\<lparr>leaderboards := [sampleBoard]\<rparr>"

section \<open>Properties\<close>

subsection \<open>The Scorer\<close>

text \<open>The loop adds the weighted impact of every rank from \<open>i\<close> on.\<close>

lemma scoreLoop_sum:
  "scoreLoop xs i acc =
     acc + (\<Sum>k = i..<length xs. impactScore (xs ! k) * freshnessMultiplier k * decayFactor k)"
proof (induction xs i acc rule: scoreLoop.induct)
  case (1 xs i acc)
  show ?case
  proof (cases "i < length xs")
    case True
    then show ?thesis
      using "1.IH" [OF True]
      by (subst scoreLoop.simps) (simp add: sum.atLeast_Suc_lessThan add.assoc)
  next
    case False
    then show ?thesis by (subst scoreLoop.simps) simp
  qed
qed

lemma sum_split2:
  fixes f :: "nat \<Rightarrow> rat"
  shows "(\<Sum>k = 0..<Suc (Suc n). f k) = f 0 + f 1 + (\<Sum>k = 0..<n. f (Suc (Suc k)))"
proof -
  have "(\<Sum>k = 0..<Suc (Suc n). f k) = f 0 + (\<Sum>k = 0..<Suc n. (f \<circ> Suc) k)"
    by (rule sum.atLeast0_lessThan_Suc_shift)
  also have "(\<Sum>k = 0..<Suc n. (f \<circ> Suc) k)
               = (f \<circ> Suc) 0 + (\<Sum>k = 0..<n. ((f \<circ> Suc) \<circ> Suc) k)"
    by (rule sum.atLeast0_lessThan_Suc_shift)
  finally show ?thesis by (simp add: add.assoc)
qed

lemma scoreLoop_Cons2:
  "scoreLoop (a # b # rest) 0 0 =
     3 * impactScore a + impactScore b + sum_list (map impactScore rest) / 4"
proof -
  have "scoreLoop (a # b # rest) 0 0 =
          (\<Sum>k = 0..<Suc (Suc (length rest)).
             impactScore ((a # b # rest) ! k) * freshnessMultiplier k * decayFactor k)"
    by (simp add: scoreLoop_sum)
  also have "\<dots> = 3 * impactScore a + impactScore b
                    + (\<Sum>k = 0..<length rest. impactScore (rest ! k) / 4)"
    unfolding sum_split2 by (simp add: freshnessMultiplier_def decayFactor_def)
  also have "(\<Sum>k = 0..<length rest. impactScore (rest ! k) / 4)
               = sum_list (map impactScore rest) / 4"
    by (simp add: sum_list_sum_nth sum_divide_distrib atLeast0LessThan)
  finally show ?thesis .
qed

lemma scoreLoop_Nil: "scoreLoop [] 0 0 = 0"
  by (simp add: scoreLoop_sum)

lemma scoreLoop_single: "scoreLoop [a] 0 0 = 3 * impactScore a"
  by (simp add: scoreLoop_sum freshnessMultiplier_def decayFactor_def)


lemma sampleTweet_sel [simp]:
  "id' (sampleTweet i u f c l r) = i"
  "Tweet.username (sampleTweet i u f c l r) = u"
  "follower_count (sampleTweet i u f c l r) = f"
  "created_at (sampleTweet i u f c l r) = c"
  "likes (sampleTweet i u f c l r) = l"
  "retweets (sampleTweet i u f c l r) = r"
  by (simp_all add: sampleTweet_def)

text \<open>Records in non-increasing order of their dates are left in place.\<close>

lemma sortBy_descending3:
  assumes "getTime (created_at t0) = Some a" "getTime (created_at t1) = Some b"
    and "getTime (created_at t2) = Some c" "c \<le> b" "b \<le> a"
  shows "sortBy (newestFirst getTime) [t0, t1, t2] = [t0, t1, t2]"
  using assms by (simp add: sortBy_def newestFirst_def)

text \<open>
  Three records with distinct dates are brought into the newest-first order
  from any order.
\<close>

lemma mset_three:
  assumes "mset xs = mset [a, b, c]"
  shows "xs = [a, b, c] \<or> xs = [a, c, b] \<or> xs = [b, a, c]
         \<or> xs = [b, c, a] \<or> xs = [c, a, b] \<or> xs = [c, b, a]"
proof -
  have "length xs = length [a, b, c]"
    using assms by (rule mset_eq_length)
  then have "length xs = 3" by simp
  then obtain x y z where xs: "xs = [x, y, z]"
    by (metis length_0_conv length_Suc_conv numeral_3_eq_3)
  from assms show ?thesis
    unfolding xs by (auto simp: add_eq_conv_ex)
qed

lemma sortBy_three:
  assumes "getTime (created_at t0) = Some a" "getTime (created_at t1) = Some b"
    and "getTime (created_at t2) = Some c" "c < b" "b < a"
    and "mset userTweets = mset [t0, t1, t2]"
  shows "sortBy (newestFirst getTime) userTweets = [t0, t1, t2]"
  using mset_three [OF assms(6)] assms(1-5)
  by (auto simp: sortBy_def newestFirst_def)

text \<open>
  Claim C1, as amended. A user with the handle \<open>h\<close> has exactly the three
  records of the worked example, (followers 1000, likes 10, reposts 5),
  (0, 1, 0) and (0, 0, 0), which are newest first in this order; they are
  passed in this order, or in any order when their dates are distinct.
  \<open>calculateUserScore\<close> returns 80 when the handle is not empty and is in the
  prior-week user set, and 64 otherwise.
\<close>

theorem example_score:
  assumes "follower_count t0 = 1000" "likes t0 = 10" "retweets t0 = 5"
    and "follower_count t1 = 0" "likes t1 = 1" "retweets t1 = 0"
    and "follower_count t2 = 0" "likes t2 = 0" "retweets t2 = 0"
    and "Tweet.username t0 = h" "Tweet.username t1 = h" "Tweet.username t2 = h"
    and "getTime (created_at t0) = Some a" "getTime (created_at t1) = Some b"
    and "getTime (created_at t2) = Some c"
    and "userTweets = [t0, t1, t2] \<and> c \<le> b \<and> b \<le> a
         \<or> mset userTweets = mset [t0, t1, t2] \<and> c < b \<and> b < a"
  shows "calculateUserScore getTime userTweets previousWeekUsers =
           (if h \<noteq> [] \<and> h \<in> set previousWeekUsers then 80 else 64)"
proof -
  have sorted: "sortBy (newestFirst getTime) userTweets = [t0, t1, t2]"
    using assms(16)
  proof
    assume "userTweets = [t0, t1, t2] \<and> c \<le> b \<and> b \<le> a"
    then show ?thesis
      using assms(13-15) by (simp add: sortBy_descending3)
  next
    assume "mset userTweets = mset [t0, t1, t2] \<and> c < b \<and> b < a"
    then show ?thesis
      using assms(13-15) by (simp add: sortBy_three)
  qed
  have "set userTweets = {t0, t1, t2}"
    using assms(16) by (metis mset_eq_setD list.simps(15) empty_set)
  then obtain first rest where ut: "userTweets = first # rest" "first \<in> {t0, t1, t2}"
    by (cases userTweets) auto
  then have "Tweet.username first = h"
    using assms(10-12) by auto
  then have "consistencyMultiplier userTweets previousWeekUsers =
               (if h \<noteq> [] \<and> h \<in> set previousWeekUsers then 5 / 4 else 1)"
    using ut(1) by (simp add: consistencyMultiplier_def)
  then show ?thesis
    using sorted assms(1-9)
    by (simp add: calculateUserScore_def scoreLoop_Cons2 impactScore_def)
qed

theorem example_score_witness:
  "mset (rev (exampleRecords ''A'')) = mset (exampleRecords ''A'')
   \<and> calculateUserScore sampleTime (rev (exampleRecords ''A'')) [''B'', ''A''] = 80
   \<and> calculateUserScore sampleTime (rev (exampleRecords ''A'')) [''B''] = 64"
proof -
  have t: "sampleTime ''2024-05-03T12:00:00.000Z'' = Some 1714737600000"
    "sampleTime ''2024-05-02T12:00:00.000Z'' = Some 1714651200000"
    "sampleTime ''2024-05-01T12:00:00.000Z'' = Some 1714564800000"
    by (simp_all add: sampleTime_def)
  have "calculateUserScore sampleTime (rev (exampleRecords ''A'')) previousWeekUsers =
          (if ''A'' \<in> set previousWeekUsers then 80 else 64)" for previousWeekUsers
    using example_score [of "sampleTweet ''103'' ''A'' 1000 ''2024-05-03T12:00:00.000Z'' 10 5"
        "sampleTweet ''102'' ''A'' 0 ''2024-05-02T12:00:00.000Z'' 1 0"
        "sampleTweet ''101'' ''A'' 0 ''2024-05-01T12:00:00.000Z'' 0 0"
        "''A''" sampleTime 1714737600000 1714651200000 1714564800000
        "rev (exampleRecords ''A'')" previousWeekUsers] t
    by (simp add: exampleRecords_def)
  then show ?thesis by simp
qed

text \<open>
  The claim as stated fails for the empty handle, which line 591 excludes from
  the bonus: the score is 64 although the handle is in the prior-week set.
\<close>

theorem example_score_empty_handle:
  "([] :: string) \<in> set [[]]
   \<and> calculateUserScore sampleTime (exampleRecords []) [[]] = 64
   \<and> calculateUserScore sampleTime (exampleRecords []) [[]] \<noteq> 80"
  by code_simp

text \<open>
  Claim C2, as amended. For a non-empty record list whose first record has a
  non-empty handle, \<open>calculateUserScore\<close> with that handle in the prior-week
  user set returns exactly 1.25 times the value it returns on the same list
  with the handle absent from the set.
\<close>

theorem consistency_bonus:
  assumes "Tweet.username t \<noteq> []"
    and "Tweet.username t \<in> set activeBefore"
    and "Tweet.username t \<notin> set notActiveBefore"
  shows "calculateUserScore getTime (t # rest) activeBefore =
           5 / 4 * calculateUserScore getTime (t # rest) notActiveBefore"
  using assms by (simp add: calculateUserScore_def consistencyMultiplier_def Let_def)

theorem consistency_bonus_witness:
  "Tweet.username (sampleTweet ''101'' ''A'' 0 ''2024-05-01T12:00:00.000Z'' 4 0) \<in> set [''A'']
   \<and> Tweet.username (sampleTweet ''101'' ''A'' 0 ''2024-05-01T12:00:00.000Z'' 4 0) \<notin> set [''B'']
   \<and> calculateUserScore sampleTime
        [sampleTweet ''101'' ''A'' 0 ''2024-05-01T12:00:00.000Z'' 4 0] [''A'']
       = 5 / 4 * calculateUserScore sampleTime
           [sampleTweet ''101'' ''A'' 0 ''2024-05-01T12:00:00.000Z'' 4 0] [''B'']"
  using consistency_bonus [of "sampleTweet ''101'' ''A'' 0 ''2024-05-01T12:00:00.000Z'' 4 0"
      "[''A'']" "[''B'']" sampleTime "[]"]
  by simp

text \<open>
  The claim as stated fails for the empty handle, which line 591 excludes from
  the bonus: the score is 12 with the handle in the set and without it.
\<close>

theorem consistency_bonus_empty_handle:
  "Tweet.username (sampleTweet ''101'' [] 0 ''2024-05-01T12:00:00.000Z'' 4 0) \<in> set [[]]
   \<and> Tweet.username (sampleTweet ''101'' [] 0 ''2024-05-01T12:00:00.000Z'' 4 0) \<notin> set []
   \<and> calculateUserScore sampleTime
        [sampleTweet ''101'' [] 0 ''2024-05-01T12:00:00.000Z'' 4 0] [[]] = 12
   \<and> calculateUserScore sampleTime
        [sampleTweet ''101'' [] 0 ''2024-05-01T12:00:00.000Z'' 4 0] [] = 12
   \<and> calculateUserScore sampleTime
        [sampleTweet ''101'' [] 0 ''2024-05-01T12:00:00.000Z'' 4 0] [[]]
      \<noteq> 5 / 4 * calculateUserScore sampleTime
            [sampleTweet ''101'' [] 0 ''2024-05-01T12:00:00.000Z'' 4 0] []"
  by (simp add: calculateUserScore_def consistencyMultiplier_def sortBy_def scoreLoop_single
      impactScore_def)

text \<open>
  The loop in double precision. Numerals are evaluated by the rules below; a
  multiple of a quarter below \<open>2^51\<close> is a double.
\<close>

lemma bitLength_le: "n < 2 ^ m \<Longrightarrow> bitLength n \<le> m"
proof (induction m arbitrary: n)
  case 0
  then show ?case by (simp add: bitLength.simps)
next
  case (Suc m)
  show ?case
  proof (cases "n = 0")
    case True
    then show ?thesis by (simp add: bitLength.simps)
  next
    case False
    have "n div 2 < 2 ^ m" using Suc.prems by simp
    from Suc.IH [OF this] False show ?thesis
      by (subst bitLength.simps) simp
  qed
qed

lemma ilog2_le:
  assumes "0 < x" "x < 2 ^ 51"
  shows "ilog2 x \<le> 50"
proof (cases "1 \<le> x")
  case True
  have "\<lfloor>x\<rfloor> < 2 ^ 51" using assms(2) by (simp add: floor_less_iff)
  moreover have "0 \<le> \<lfloor>x\<rfloor>" using assms(1) by simp
  ultimately have "nat \<lfloor>x\<rfloor> < 2 ^ 51"
    by (simp add: nat_less_iff)
  then have "bitLength (nat \<lfloor>x\<rfloor>) \<le> 51" by (rule bitLength_le)
  with True show ?thesis by (simp add: ilog2_def)
next
  case False
  then show ?thesis by (simp add: ilog2_def)
qed

lemma roundHalfEven_of_int [simp]: "roundHalfEven (of_int n) = n"
  by (simp add: roundHalfEven_def)

lemma round64_zero [simp]: "round64 0 = 0"
  by (simp add: round64_def)

lemma round64_exact:
  assumes quarter: "of_int \<lfloor>4 * x\<rfloor> = 4 * x" and bound: "\<bar>x\<bar> < 2 ^ 51"
  shows "round64 x = x"
proof (cases "x = 0")
  case True
  then show ?thesis by simp
next
  case False
  define k where "k = \<lfloor>4 * x\<rfloor>"
  have x: "x = of_int k / 4"
    using quarter by (simp add: k_def field_simps del: of_int_floor_cancel)
  define e where "e = max (ilog2 \<bar>x\<bar>) (- 1022)"
  have "ilog2 \<bar>x\<bar> \<le> 50" using False bound by (intro ilog2_le) simp_all
  then have e: "e \<le> 50" by (simp add: e_def)
  define m where "m = nat (50 - e)"
  have q: "pow2 (e - 52) = 1 / (4 * 2 ^ m)"
  proof -
    have "nat (- (e - 52)) = Suc (Suc m)" using e by (simp add: m_def)
    then show ?thesis using e by (simp add: pow2_def)
  qed
  have "x / pow2 (e - 52) = of_int (k * 2 ^ m)"
    unfolding q x by simp
  then have "roundHalfEven (x / pow2 (e - 52)) = k * 2 ^ m"
    by (simp only: roundHalfEven_of_int)
  then have "round64 x = of_int (k * 2 ^ m) * (1 / (4 * 2 ^ m))"
    using False by (simp add: round64_def e_def [symmetric] q Let_def)
  also have "\<dots> = x" unfolding x by simp
  finally show ?thesis .
qed



lemma floor_rat_numeral [simp]:
  "\<lfloor>numeral a / numeral b :: rat\<rfloor> = numeral a div numeral b"
  by (metis floor_divide_of_int_eq of_int_numeral)

lemma ceiling_rat_numeral [simp]:
  "\<lceil>numeral a / numeral b :: rat\<rceil> = - (- numeral a div numeral b)"
  unfolding ceiling_def
  by (metis floor_divide_of_int_eq of_int_numeral of_int_minus minus_divide_left)

lemma bitLength_numeral [simp]:
  "bitLength 0 = 0"
  "bitLength (numeral n) = Suc (bitLength (numeral n div 2))"
  by (simp_all add: bitLength.simps)

lemma bitLength_one [simp]: "bitLength 1 = 1" "bitLength (Suc 0) = 1"
  by (simp_all add: bitLength.simps)

text \<open>
  The roundings that occur in the worked example and in the two sums of
  \<open>double_sums\<close>.
\<close>

lemma double_values:
  "round64 (1 / 1000) = 1152921504606847 / 1152921504606846976"
  "round64 (70328211781017667 / 1152921504606846976) = 1098878309078401 / 18014398509481984"
  "round64 (1098878309078401 / 18014398509481984) = 1098878309078401 / 18014398509481984"
  "round64 (3296634927235203 / 18014398509481984) = 3296634927235203 / 18014398509481984"
  "round64 (1098878309078401 / 72057594037927936) = 1098878309078401 / 72057594037927936"
  "round64 (14285418018019213 / 72057594037927936) = 3571354504504803 / 18014398509481984"
  "round64 (1152921504606847 / 1152921504606846976) = 1152921504606847 / 1152921504606846976"
  "round64 (1152921504606847 / 4611686018427387904) = 1152921504606847 / 4611686018427387904"
  "round64 (915419674657836415 / 4611686018427387904) = 7151716208264347 / 36028797018963968"
  "round64 (17293822569102705 / 288230376151711744) = 1080863910568919 / 18014398509481984"
  "round64 (1080863910568919 / 18014398509481984) = 1080863910568919 / 18014398509481984"
  "round64 (1080863910568919 / 72057594037927936) = 1080863910568919 / 72057594037927936"
  "round64 (15384296327097613 / 72057594037927936) = 3846074081774403 / 18014398509481984"
  "round64 (15366281928588131 / 72057594037927936) = 3841570482147033 / 18014398509481984"
  "round64 (984594964934247295 / 4611686018427387904) = 7692148163548807 / 36028797018963968"
  "round64 (144115188075855875 / 144115188075855872) = 1"
  by (simp_all add: round64_def ilog2_def pow2_def roundHalfEven_def Let_def)

text \<open>The worked example of claim C1 has the same sum in double precision.\<close>

lemma example_double: "scoreLoop64 (exampleRecords u) 0 0 = 64"
  by (simp add: exampleRecords_def scoreLoop64.simps impactScore64_def freshnessMultiplier_def
      decayFactor_def double_values round64_exact)








subsection \<open>The Fetcher\<close>

lemma id_processTweet [simp]: "id' (processTweet allUsers tweet) = tweet_id tweet"
  by (simp add: processTweet_def Let_def)

text \<open>
  The loop accumulates the entries of the pages followed, in order.
\<close>

lemma fetchPages_pagesFrom:
  "fetchPages upstream startTime endTime maxResults allTweets allUsers cursor n =
     map_option (\<lambda>pages. (allTweets @ concat (map entriesOf pages),
                           allUsers @ concat (map usersOf pages)))
       (pagesFrom upstream startTime endTime maxResults cursor n)"
proof (induction upstream startTime endTime maxResults allTweets allUsers cursor n
    rule: fetchPages.induct)
  case (1 upstream startTime endTime maxResults allTweets allUsers cursor n)
  let ?req = "\<lparr>start_time = startTime, end_time = endTime, max_results = maxResults,
                next_token = (if truthy cursor then cursor else None)\<rparr>"
  show ?case
  proof (cases "upstream (n + 1) ?req")
    case None
    then show ?thesis
      by (subst fetchPages.simps, subst pagesFrom.simps) simp
  next
    case (Some page)
    show ?thesis
    proof (cases "truthy (meta_next_token page) \<and> n + 1 < maxPages")
      case True
      let ?ts = "allTweets @ (case data page of Some d \<Rightarrow> d | None \<Rightarrow> [])"
      let ?us = "allUsers @ (case includes_users page of Some u \<Rightarrow> u | None \<Rightarrow> [])"
      let ?rest = "pagesFrom upstream startTime endTime maxResults (meta_next_token page) (n + 1)"
      have "fetchPages upstream startTime endTime maxResults allTweets allUsers cursor n
              = fetchPages upstream startTime endTime maxResults ?ts ?us
                  (meta_next_token page) (n + 1)"
        using Some True by (subst fetchPages.simps) simp
      also have "\<dots> = map_option (\<lambda>pages. (?ts @ concat (map entriesOf pages),
                                             ?us @ concat (map usersOf pages))) ?rest"
        using Some True by (rule "1.IH")
      also have "\<dots> = map_option (\<lambda>pages. (allTweets @ concat (map entriesOf pages),
                                             allUsers @ concat (map usersOf pages)))
                         (map_option ((#) page) ?rest)"
        by (simp add: option.map_comp comp_def entriesOf_def usersOf_def)
      also have "map_option ((#) page) ?rest
                   = pagesFrom upstream startTime endTime maxResults cursor n"
        using Some True by (subst (2) pagesFrom.simps) simp
      finally show ?thesis .
    next
      case False
      with Some show ?thesis
        by (subst fetchPages.simps, subst pagesFrom.simps)
          (auto simp: entriesOf_def usersOf_def)
    qed
  qed
qed

lemma username_processTweet:
  "Tweet.username (processTweet allUsers tweet) \<noteq> ''unknown'' \<longleftrightarrow> authorResolves allUsers tweet"
  by (auto simp: processTweet_def authorResolves_def orElse_def Let_def split: option.splits)

text \<open>
  Claim C5, as amended. A call of \<open>fetchTwitterMentions\<close> in which a request
  fails returns the empty list. Otherwise it returns, for the pages followed,
  one record for every tweet entry of these pages whose author resolves among
  the user entries of all of them, in the order of the pages; so the list
  contains no two records with the same id exactly when no id occurs twice
  among these entries.
\<close>

theorem fetch_returns_resolved_entries:
  "case pagesFrom upstream startTime endTime maxResults None 0 of
     None \<Rightarrow> fetchTwitterMentions upstream startTime endTime maxResults = []
   | Some pages \<Rightarrow>
       fetchTwitterMentions upstream startTime endTime maxResults
         = map (processTweet (concat (map usersOf pages)))
             (filter (authorResolves (concat (map usersOf pages)))
                (concat (map entriesOf pages)))
       \<and> (distinct (map id' (fetchTwitterMentions upstream startTime endTime maxResults))
            \<longleftrightarrow> distinct (map tweet_id
                  (filter (authorResolves (concat (map usersOf pages)))
                     (concat (map entriesOf pages)))))"
proof (cases "pagesFrom upstream startTime endTime maxResults None 0")
  case None
  then show ?thesis
    by (simp add: fetchTwitterMentions_def fetchPages_pagesFrom)
next
  case (Some pages)
  have eq: "fetchTwitterMentions upstream startTime endTime maxResults
         = map (processTweet (concat (map usersOf pages)))
             (filter (authorResolves (concat (map usersOf pages)))
                (concat (map entriesOf pages)))"
    using Some
    by (simp add: fetchTwitterMentions_def fetchPages_pagesFrom filter_map comp_def
        username_processTweet)
  have "map id' (map (processTweet (concat (map usersOf pages)))
             (filter (authorResolves (concat (map usersOf pages)))
                (concat (map entriesOf pages))))
        = map tweet_id (filter (authorResolves (concat (map usersOf pages)))
                (concat (map entriesOf pages)))"
    by (simp add: comp_def)
  then have "distinct (map id' (fetchTwitterMentions upstream startTime endTime maxResults))
            \<longleftrightarrow> distinct (map tweet_id
                  (filter (authorResolves (concat (map usersOf pages)))
                     (concat (map entriesOf pages))))"
    by (simp only: eq)
  with eq show ?thesis
    unfolding Some option.case by (rule conjI)
qed

theorem fetch_returns_resolved_entries_witness:
  "map (map tweet_id \<circ> entriesOf)
     (the (pagesFrom pagedUpstream ''2024-04-27T00:00:00.000Z'' ''2024-05-03T23:59:30.000Z''
        100 None 0))
     = [[''12'', ''11''], [''10'']]
   \<and> map id' (fetchTwitterMentions pagedUpstream ''2024-04-27T00:00:00.000Z''
        ''2024-05-03T23:59:30.000Z'' 100) = [''12'', ''11'', ''10'']
   \<and> distinct (map id' (fetchTwitterMentions pagedUpstream ''2024-04-27T00:00:00.000Z''
        ''2024-05-03T23:59:30.000Z'' 100))"
proof -
  have pages: "pagesFrom pagedUpstream ''2024-04-27T00:00:00.000Z''
        ''2024-05-03T23:59:30.000Z'' 100 None 0
      = Some [\<lparr>data = Some [sampleRaw ''12'' ''2024-05-03T12:00:00.000Z'',
                              sampleRaw ''11'' ''2024-05-02T12:00:00.000Z''],
                includes_users = Some [sampleUser], meta_next_token = Some ''page2''\<rparr>,
              \<lparr>data = Some [sampleRaw ''10'' ''2024-05-01T12:00:00.000Z''],
                includes_users = None, meta_next_token = None\<rparr>]"
    by code_simp
  have ids: "map id' (fetchTwitterMentions pagedUpstream ''2024-04-27T00:00:00.000Z''
        ''2024-05-03T23:59:30.000Z'' 100) = [''12'', ''11'', ''10'']"
    using fetch_returns_resolved_entries [of pagedUpstream "''2024-04-27T00:00:00.000Z''"
        "''2024-05-03T23:59:30.000Z''" 100]
    unfolding pages
    by (simp add: entriesOf_def usersOf_def authorResolves_def sampleRaw_def sampleUser_def)
  show ?thesis
    unfolding pages ids by (simp add: entriesOf_def sampleRaw_def)
qed

text \<open>
  The claim as stated fails when the upstream repeats an entry on a later
  page: the call returns the record 11 twice.
\<close>

theorem fetch_repeats_id:
  "map id' (fetchTwitterMentions repeatingUpstream ''2024-04-27T00:00:00.000Z'' ''2024-05-03T23:59:30.000Z'' 100) = [''12'', ''11'', ''11'', ''10'']
   \<and> \<not> distinct (map id' (fetchTwitterMentions repeatingUpstream ''2024-04-27T00:00:00.000Z'' ''2024-05-03T23:59:30.000Z'' 100))"
proof -
  have "map id' (fetchTwitterMentions repeatingUpstream ''2024-04-27T00:00:00.000Z'' ''2024-05-03T23:59:30.000Z'' 100) = [''12'', ''11'', ''11'', ''10'']"
    by code_simp
  then show ?thesis by simp
qed

subsection \<open>The merge\<close>

lemma newTweets_again: "newTweets (mergeTweets d fetched now) fetched = []"
  by (auto simp: newTweets_def mergeTweets_def filter_empty_conv)

text \<open>
  A batch without repeated ids keeps the ids of the store distinct.
\<close>

lemma merge_distinct:
  assumes "distinct (map id' (tweets d))" "distinct (map id' fetched)"
  shows "distinct (map id' (tweets (mergeTweets d fetched now)))"
  using assms
  by (auto simp: mergeTweets_def newTweets_def distinct_map_filter) (metis image_eqI)

text \<open>
  Claim C4. After every merge the ids of the stored records should be pairwise
  distinct, also for a batch that holds an id twice. The code tests the ids of
  a batch against the store as it was before the merge only: from the empty
  store, the batch fetched from the repeating upstream leaves the record 11
  in the store twice.
\<close>

theorem merge_keeps_repeated_id:
  "map id' (tweets (mergeTweets emptyStorage
       (fetchTwitterMentions repeatingUpstream ''2024-04-27T00:00:00.000Z'' ''2024-05-03T23:59:30.000Z'' 100) ''2024-05-04T00:00:00.000Z''))
     = [''12'', ''11'', ''11'', ''10'']"
  by code_simp

text \<open>
  Claim C6. Merging the same batch a second time appends no record: every id
  of the batch is in the store after the first merge, and the second merge
  changes the time of the last fetch only.
\<close>

theorem merge_idempotent:
  "newTweets (mergeTweets d fetched now) fetched = []
   \<and> tweets (mergeTweets (mergeTweets d fetched now) fetched now')
       = tweets (mergeTweets d fetched now)
   \<and> mergeTweets (mergeTweets d fetched now) fetched now'
       = (mergeTweets d fetched now)\<lparr>lastFetch := now'\<rparr>"
  by (simp add: newTweets_again mergeTweets_def [of "mergeTweets d fetched now"])

subsection \<open>The snapshot list\<close>

lemma findIndex_Some:
  "findIndex p xs = Some i \<Longrightarrow> i < length xs \<and> p (xs ! i) \<and> (\<forall>j < i. \<not> p (xs ! j))"
proof (induction xs arbitrary: i)
  case Nil
  then show ?case by simp
next
  case (Cons x xs)
  show ?case
  proof (cases "p x")
    case True
    with Cons.prems show ?thesis by simp
  next
    case False
    with Cons.prems obtain k where k: "findIndex p xs = Some k" "i = Suc k" by auto
    from Cons.IH [OF k(1)] False k(2) show ?thesis
      by (auto simp: less_Suc_eq_0_disj)
  qed
qed

lemma findIndex_None: "findIndex p xs = None \<Longrightarrow> \<forall>x \<in> set xs. \<not> p x"
  by (induction xs) (auto split: if_splits)

lemma week_buildLeaderboard: "buildLeaderboard env d = Inr lb \<Longrightarrow> week lb = weekKey env"
  by (auto simp: buildLeaderboard_def Let_def split: sum.splits)

lemma storeLeaderboard_replace:
  assumes "findIndex (\<lambda>x. week x = week lb) lbs = Some i" "length lbs \<le> 8"
  shows "storeLeaderboard lbs lb = lbs[i := lb]"
  using assms by (simp add: storeLeaderboard_def)

lemma storeLeaderboard_append:
  assumes "findIndex (\<lambda>x. week x = week lb) lbs = None"
  shows "storeLeaderboard lbs lb = drop (length lbs + 1 - 8) (lbs @ [lb])"
  using assms by (simp add: storeLeaderboard_def)

lemma storeLeaderboard_length: "length (storeLeaderboard lbs lb) \<le> 8"
  by (simp add: storeLeaderboard_def Let_def split: option.splits)

lemma storeLeaderboard_distinct:
  assumes "distinct (map week lbs)"
  shows "distinct (map week (storeLeaderboard lbs lb))"
proof (cases "findIndex (\<lambda>x. week x = week lb) lbs")
  case None
  from findIndex_None [OF None] have "week lb \<notin> set (map week lbs)" by auto
  with assms have "distinct (map week (lbs @ [lb]))" by simp
  then have "distinct (drop (length lbs + 1 - 8) (map week (lbs @ [lb])))"
    by (rule distinct_drop)
  then show ?thesis
    by (simp only: storeLeaderboard_append [OF None] drop_map)
next
  case (Some i)
  from findIndex_Some [OF Some] have i: "i < length lbs" "week (lbs ! i) = week lb" by auto
  have "map week (lbs[i := lb]) = map week lbs"
    using i by (simp add: map_update list_update_same_conv)
  with assms have "distinct (map week (lbs[i := lb]))" by simp
  then have "distinct (drop (length (lbs[i := lb]) - 8) (map week (lbs[i := lb])))"
    by (rule distinct_drop)
  then show ?thesis
    using Some by (simp add: storeLeaderboard_def drop_map)
qed

lemma scoreAndStore_cases:
  assumes "scoreAndStore env d = Inr d'"
  shows "d' = d \<or> (\<exists>lb. week lb = weekKey env
            \<and> d' = d\<lparr>leaderboards := storeLeaderboard (leaderboards d) lb\<rparr>)"
  using assms week_buildLeaderboard
  by (auto simp: scoreAndStore_def split: if_splits sum.splits)

lemma reachable_snapshots:
  "reachable d \<Longrightarrow> distinct (map week (leaderboards d)) \<and> length (leaderboards d) \<le> 8"
proof (induction rule: reachable.induct)
  case start
  show ?case by (simp add: emptyStorage_def)
next
  case (merge d fetched now)
  then show ?case by (simp add: mergeTweets_def)
next
  case (cycle d env d')
  from scoreAndStore_cases [OF cycle.hyps(2)] cycle.IH show ?case
    by (auto simp: storeLeaderboard_distinct storeLeaderboard_length)
qed

lemma scoreAndStore_empty:
  "currentWeek env d = [] \<Longrightarrow> scoreAndStore env d = Inr d"
  by (simp add: scoreAndStore_def currentWeek_def)

lemma scoreAndStore_built:
  assumes "currentWeek env d \<noteq> []" "scoreAndStore env d = Inr d'"
  shows "\<exists>lb. buildLeaderboard env d = Inr lb
              \<and> d' = d\<lparr>leaderboards := storeLeaderboard (leaderboards d) lb\<rparr>"
  using assms by (auto simp: scoreAndStore_def currentWeek_def split: sum.splits)

text \<open>
  Claim C8. After an aggregation cycle on a store the program can hold, the
  snapshot list has at most one snapshot per week key and at most 8 entries.
  A cycle without current-week records leaves the store as it is. Otherwise
  the snapshot built in the cycle is in the list: when the list already held
  a snapshot of that week, the new one stands at its position and the list is
  unchanged elsewhere; when it did not, the new one is appended and the
  entries before the last 8 are dropped from the front.
\<close>

theorem snapshot_uniqueness:
  assumes "reachable d" and "scoreAndStore env d = Inr d'"
  shows "distinct (map week (leaderboards d'))
         \<and> length (leaderboards d') \<le> 8
         \<and> (if currentWeek env d = [] then d' = d
            else \<exists>lb. buildLeaderboard env d = Inr lb
                   \<and> week lb = weekKey env
                   \<and> lb \<in> set (leaderboards d')
                   \<and> tweets d' = tweets d \<and> lastFetch d' = lastFetch d
                   \<and> (case findIndex (\<lambda>x. week x = weekKey env) (leaderboards d) of
                        Some i \<Rightarrow> leaderboards d' = (leaderboards d)[i := lb]
                      | None \<Rightarrow> leaderboards d'
                          = drop (length (leaderboards d) + 1 - 8) (leaderboards d @ [lb])))"
proof -
  have "reachable d'" using assms by (rule reachable.cycle)
  then have inv': "distinct (map week (leaderboards d'))" "length (leaderboards d') \<le> 8"
    using reachable_snapshots by auto
  have inv: "length (leaderboards d) \<le> 8"
    using assms(1) reachable_snapshots by auto
  have step: "if currentWeek env d = [] then d' = d
            else \<exists>lb. buildLeaderboard env d = Inr lb
                   \<and> week lb = weekKey env
                   \<and> lb \<in> set (leaderboards d')
                   \<and> tweets d' = tweets d \<and> lastFetch d' = lastFetch d
                   \<and> (case findIndex (\<lambda>x. week x = weekKey env) (leaderboards d) of
                        Some i \<Rightarrow> leaderboards d' = (leaderboards d)[i := lb]
                      | None \<Rightarrow> leaderboards d'
                          = drop (length (leaderboards d) + 1 - 8) (leaderboards d @ [lb]))"
  proof (cases "currentWeek env d = []")
    case True
    with scoreAndStore_empty [OF True] assms(2) show ?thesis by simp
  next
    case False
    from scoreAndStore_built [OF False assms(2)] obtain lb where
      lb: "buildLeaderboard env d = Inr lb"
      and d': "d' = d\<lparr>leaderboards := storeLeaderboard (leaderboards d) lb\<rparr>" by blast
    have wk: "week lb = weekKey env" using lb by (rule week_buildLeaderboard)
    have pos: "case findIndex (\<lambda>x. week x = weekKey env) (leaderboards d) of
                 Some i \<Rightarrow> leaderboards d' = (leaderboards d)[i := lb]
               | None \<Rightarrow> leaderboards d'
                   = drop (length (leaderboards d) + 1 - 8) (leaderboards d @ [lb])"
    proof (cases "findIndex (\<lambda>x. week x = weekKey env) (leaderboards d)")
      case None
      then have "findIndex (\<lambda>x. week x = week lb) (leaderboards d) = None"
        using wk by simp
      from storeLeaderboard_append [OF this] None d' show ?thesis by simp
    next
      case (Some i)
      then have "findIndex (\<lambda>x. week x = week lb) (leaderboards d) = Some i"
        using wk by simp
      from storeLeaderboard_replace [OF this inv] Some d' show ?thesis by simp
    qed
    have mem: "lb \<in> set (leaderboards d')"
    proof (cases "findIndex (\<lambda>x. week x = weekKey env) (leaderboards d)")
      case None
      with pos have "leaderboards d'
                   = drop (length (leaderboards d) + 1 - 8) (leaderboards d @ [lb])" by simp
      moreover have "length (leaderboards d) + 1 - 8 < length (leaderboards d @ [lb])"
        by simp
      ultimately have "last (leaderboards d') = lb" "leaderboards d' \<noteq> []"
        by simp_all
      then show ?thesis by (metis last_in_set)
    next
      case (Some i)
      with pos have "leaderboards d' = (leaderboards d)[i := lb]" by simp
      moreover have "i < length (leaderboards d)"
        using findIndex_Some [OF Some] by simp
      ultimately show ?thesis by (simp add: set_update_memI)
    qed
    from False lb wk mem pos d' show ?thesis by auto
  qed
  from inv' step show ?thesis by simp
qed

lemma reachable_sampleStore: "reachable sampleStore"
  unfolding sampleStore_def by (intro reachable.merge reachable.start)

lemma sample_first_cycle: "scoreAndStore sampleEnv sampleStore = Inr scoredStore"
  by code_simp

lemma sample_second_cycle: "scoreAndStore sampleEnv scoredStore = Inr scoredStore"
  by code_simp

lemma scored_board: "buildLeaderboard sampleEnv scoredStore = Inr sampleBoard"
  by code_simp

theorem snapshot_uniqueness_witness:
  "reachable scoredStore
   \<and> scoreAndStore sampleEnv scoredStore = Inr scoredStore
   \<and> buildLeaderboard sampleEnv scoredStore = Inr sampleBoard
   \<and> findIndex (\<lambda>x. week x = weekKey sampleEnv) (leaderboards scoredStore) = Some 0
   \<and> leaderboards scoredStore = (leaderboards scoredStore)[0 := sampleBoard]
   \<and> distinct (map week (leaderboards scoredStore))
   \<and> length (leaderboards scoredStore) \<le> 8"
proof -
  have r: "reachable scoredStore"
    using reachable_sampleStore sample_first_cycle by (rule reachable.cycle)
  have i: "findIndex (\<lambda>x. week x = weekKey sampleEnv) (leaderboards scoredStore) = Some 0"
    by (simp add: scoredStore_def sampleBoard_def sampleEnv_def)
  have u: "leaderboards scoredStore = (leaderboards scoredStore)[0 := sampleBoard]"
    by (simp add: scoredStore_def)
  from snapshot_uniqueness [OF r sample_second_cycle] r sample_second_cycle scored_board i u
  show ?thesis by simp
qed

subsection \<open>The most viral record and the top record\<close>

lemma foldl_moreViral_snoc:
  "reduceViral t (ts @ [x]) = moreViral (reduceViral t ts) x"
  by (simp add: reduceViral_def)

lemma reduceViral_firstMax:
  "\<exists>i. firstMaxAt (t # ts) i \<and> reduceViral t ts = (t # ts) ! i"
proof (induction ts rule: rev_induct)
  case Nil
  have "firstMaxAt [t] 0" by (simp add: firstMaxAt_def)
  then show ?case by (auto simp: reduceViral_def)
next
  case (snoc x ts)
  then obtain i where i: "firstMaxAt (t # ts) i" "reduceViral t ts = (t # ts) ! i" by blast
  let ?xs = "t # ts"
  have len: "i < length ?xs" using i(1) by (simp add: firstMaxAt_def)
  have le: "\<And>j. j < length ?xs \<Longrightarrow> engagement (?xs ! j) \<le> engagement (?xs ! i)"
    using i(1) by (simp add: firstMaxAt_def)
  have lt: "\<And>j. j < i \<Longrightarrow> engagement (?xs ! j) < engagement (?xs ! i)"
    using i(1) by (simp add: firstMaxAt_def)
  have app: "t # ts @ [x] = ?xs @ [x]" by simp
  show ?case
  proof (cases "engagement x > engagement (?xs ! i)")
    case True
    have "firstMaxAt (?xs @ [x]) (length ?xs)"
      unfolding firstMaxAt_def
    proof (intro conjI allI impI)
      show "length ?xs < length (?xs @ [x])" by simp
    next
      fix j assume "j < length (?xs @ [x])"
      then have "j < length ?xs \<or> j = length ?xs" by auto
      then show "engagement ((?xs @ [x]) ! j) \<le> engagement ((?xs @ [x]) ! length ?xs)"
      proof
        assume j: "j < length ?xs"
        then have "engagement (?xs ! j) \<le> engagement (?xs ! i)" by (rule le)
        with True j show ?thesis by (simp only: nth_append nth_append_length if_True) simp
      next
        assume "j = length ?xs"
        then show ?thesis by simp
      qed
    next
      fix j assume j: "j < length ?xs"
      then have "engagement (?xs ! j) \<le> engagement (?xs ! i)" by (rule le)
      with True j show "engagement ((?xs @ [x]) ! j) < engagement ((?xs @ [x]) ! length ?xs)"
        by (simp only: nth_append nth_append_length if_True) simp
    qed
    moreover have "reduceViral t (ts @ [x]) = (?xs @ [x]) ! length ?xs"
      using True i(2) by (simp only: foldl_moreViral_snoc moreViral_def nth_append_length) simp
    ultimately show ?thesis unfolding app by blast
  next
    case False
    have "firstMaxAt (?xs @ [x]) i"
      unfolding firstMaxAt_def
    proof (intro conjI allI impI)
      show "i < length (?xs @ [x])" using len by simp
    next
      fix j assume "j < length (?xs @ [x])"
      then have "j < length ?xs \<or> j = length ?xs" by auto
      then show "engagement ((?xs @ [x]) ! j) \<le> engagement ((?xs @ [x]) ! i)"
      proof
        assume j: "j < length ?xs"
        then have "engagement (?xs ! j) \<le> engagement (?xs ! i)" by (rule le)
        with j len show ?thesis by (simp only: nth_append if_True)
      next
        assume "j = length ?xs"
        with False len show ?thesis by (simp only: nth_append nth_append_length if_True) simp
      qed
    next
      fix j assume j: "j < i"
      then have "engagement (?xs ! j) < engagement (?xs ! i)" by (rule lt)
      moreover have "j < length ?xs" using j len by simp
      ultimately show "engagement ((?xs @ [x]) ! j) < engagement ((?xs @ [x]) ! i)"
        using len by (simp only: nth_append if_True)
    qed
    moreover have "reduceViral t (ts @ [x]) = (?xs @ [x]) ! i"
      using False i(2) len by (simp only: foldl_moreViral_snoc moreViral_def nth_append if_True) simp
    ultimately show ?thesis unfolding app by blast
  qed
qed

lemma reduceViral_max:
  "reduceViral t ts \<in> set (t # ts)
   \<and> (\<forall>x \<in> set (t # ts). engagement x \<le> engagement (reduceViral t ts))"
proof -
  obtain i where i: "firstMaxAt (t # ts) i" "reduceViral t ts = (t # ts) ! i"
    using reduceViral_firstMax by blast
  have len: "i < length (t # ts)" using i(1) by (simp add: firstMaxAt_def)
  have le: "\<And>j. j < length (t # ts) \<Longrightarrow> engagement ((t # ts) ! j) \<le> engagement ((t # ts) ! i)"
    using i(1) by (simp add: firstMaxAt_def)
  have "reduceViral t ts \<in> set (t # ts)"
    unfolding i(2) using len by (rule nth_mem)
  moreover have "\<forall>x \<in> set (t # ts). engagement x \<le> engagement (reduceViral t ts)"
  proof
    fix x assume "x \<in> set (t # ts)"
    then obtain j where "j < length (t # ts)" "x = (t # ts) ! j"
      by (metis in_set_conv_nth)
    then show "engagement x \<le> engagement (reduceViral t ts)"
      unfolding i(2) using le by simp
  qed
  ultimately show ?thesis by simp
qed

lemma mostViral_buildLeaderboard:
  assumes "buildLeaderboard env d = Inr lb" "currentWeek env d = first # rest"
  shows "mostViralTweet lb = reduceViral first rest"
  using assms by (auto simp: buildLeaderboard_def currentWeek_def Let_def split: sum.splits)

lemma sample_board: "buildLeaderboard sampleEnv sampleStore = Inr sampleBoard"
  by code_simp

lemma sample_week:
  "currentWeek sampleEnv sampleStore =
     [sampleTweet ''22'' ''unknown'' 0 ''2024-05-02T12:00:00.000Z'' 6 0,
      sampleTweet ''21'' ''alice'' 1000 ''2024-05-01T12:00:00.000Z'' 4 0,
      sampleTweet ''23'' ''alice'' 1000 ''2024-05-03T12:00:00.000Z'' 2 1,
      sampleTweet ''24'' ''bob'' 0 ''2024-05-02T12:00:00.000Z'' 0 3]"
  by code_simp

text \<open>
  Claim C9. The most viral record of a snapshot is a record of the current
  week, and no record of the current week, whether or not it passes the
  validity filter and whatever the score of its author, has a greater
  \<open>likes + 2 * retweets\<close>.
\<close>

theorem viral_over_whole_week:
  assumes "buildLeaderboard env d = Inr lb" and "currentWeek env d \<noteq> []"
  shows "mostViralTweet lb \<in> set (currentWeek env d)
         \<and> (\<forall>t \<in> set (currentWeek env d). engagement t \<le> engagement (mostViralTweet lb))"
proof -
  obtain first rest where cw: "currentWeek env d = first # rest"
    using assms(2) by (cases "currentWeek env d") auto
  show ?thesis
    unfolding mostViral_buildLeaderboard [OF assms(1) cw] cw by (rule reduceViral_max)
qed


theorem viral_over_whole_week_witness:
  "buildLeaderboard sampleEnv sampleStore = Inr sampleBoard
   \<and> currentWeek sampleEnv sampleStore \<noteq> []
   \<and> mostViralTweet sampleBoard \<in> set (currentWeek sampleEnv sampleStore)
   \<and> Tweet.username (mostViralTweet sampleBoard) = ''unknown''
   \<and> map UserStats.username (users sampleBoard) = [''alice'', ''bob'']"
proof -
  have ne: "currentWeek sampleEnv sampleStore \<noteq> []"
    by (simp add: sample_week)
  have "Tweet.username (mostViralTweet sampleBoard) = ''unknown''"
    "map UserStats.username (users sampleBoard) = [''alice'', ''bob'']"
    by (simp_all add: sampleBoard_def)
  with viral_over_whole_week [OF sample_board ne] sample_board ne show ?thesis by simp
qed

subsection \<open>The groups of the users\<close>

lemma map_fst_push:
  "map fst (map (\<lambda>(k, v). if k = u then (k, v @ [t]) else (k, v)) g) = map fst g"
  by (induction g) auto

lemma grouped_step:
  assumes "grouped g seen" "groupStep g t = Inr g'"
  shows "grouped g' (seen @ [t])"
proof -
  let ?u = "Tweet.username t"
  have dist: "distinct (map fst g)"
    and grp: "\<And>e. e \<in> set g \<Longrightarrow> snd e = filter (\<lambda>x. Tweet.username x = fst e) seen \<and> snd e \<noteq> []"
    and cov: "\<And>x. x \<in> set seen \<Longrightarrow> Tweet.username x \<in> set (map fst g)"
    using assms(1) unfolding grouped_def by blast+
  show ?thesis
  proof (cases "?u \<in> set (map fst g)")
    case True
    then have g': "g' = map (\<lambda>(k, v). if k = ?u then (k, v @ [t]) else (k, v)) g"
      using assms(2) by (simp add: groupStep_def split: if_splits)
    have keys: "map fst g' = map fst g"
      unfolding g' by (rule map_fst_push)
    have "snd e = filter (\<lambda>x. Tweet.username x = fst e) (seen @ [t]) \<and> snd e \<noteq> []"
      if "e \<in> set g'" for e
    proof -
      from that obtain e0 where e0: "e0 \<in> set g"
        "e = (if fst e0 = ?u then (fst e0, snd e0 @ [t]) else e0)"
        unfolding g' by (auto split: if_splits)
      show ?thesis
      proof (cases "fst e0 = ?u")
        case True
        with e0(2) grp [OF e0(1)] show ?thesis by simp
      next
        case False
        with e0(2) grp [OF e0(1)] show ?thesis by auto
      qed
    qed
    moreover have "Tweet.username x \<in> set (map fst g')" if "x \<in> set (seen @ [t])" for x
      using that cov True unfolding keys by auto
    ultimately show ?thesis
      using dist unfolding grouped_def keys by blast
  next
    case False
    then have g': "g' = g @ [(?u, [t])]"
      using assms(2) by (simp add: groupStep_def split: if_splits)
    have none: "filter (\<lambda>x. Tweet.username x = ?u) seen = []"
    proof -
      have "Tweet.username x \<noteq> ?u" if "x \<in> set seen" for x
        using cov [OF that] False by metis
      then show ?thesis by (simp add: filter_empty_conv)
    qed
    have "snd e = filter (\<lambda>x. Tweet.username x = fst e) (seen @ [t]) \<and> snd e \<noteq> []"
      if "e \<in> set g'" for e
    proof (cases "e \<in> set g")
      case True
      then have "fst e \<in> set (map fst g)" by simp
      then have "fst e \<noteq> ?u" using False by metis
      with grp [OF True] show ?thesis by auto
    next
      case False
      with that have "e = (?u, [t])" unfolding g' by simp
      with none show ?thesis by simp
    qed
    moreover have "distinct (map fst g')"
      using dist False unfolding g' by simp
    moreover have "Tweet.username x \<in> set (map fst g')" if "x \<in> set (seen @ [t])" for x
      using that cov unfolding g' by auto
    ultimately show ?thesis unfolding grouped_def by blast
  qed
qed

lemma grouped_groupTweets:
  "grouped g seen \<Longrightarrow> groupTweets g rest = Inr g' \<Longrightarrow> grouped g' (seen @ rest)"
proof (induction rest arbitrary: g seen)
  case Nil
  then show ?case by simp
next
  case (Cons t rest)
  from Cons.prems(2) obtain g1 where g1: "groupStep g t = Inr g1" "groupTweets g1 rest = Inr g'"
    by (auto split: sum.splits)
  from grouped_step [OF Cons.prems(1) g1(1)] have "grouped g1 (seen @ [t])" .
  from Cons.IH [OF this g1(2)] show ?case by simp
qed

lemma groupTweets_groups:
  assumes "groupTweets [] valid = Inr g" "e \<in> set g"
  shows "snd e = filter (\<lambda>t. Tweet.username t = fst e) valid \<and> snd e \<noteq> []"
proof -
  have "grouped [] []" by (simp add: grouped_def)
  from grouped_groupTweets [OF this assms(1)] have "grouped g valid" by simp
  with assms(2) show ?thesis unfolding grouped_def by blast
qed

lemma set_insertBy: "set (insertBy cmp x xs) = insert x (set xs)"
  by (induction xs) auto

lemma set_sortBy: "set (sortBy cmp xs) = set xs"
  unfolding sortBy_def by (induction xs) (auto simp: set_insertBy)

lemma set_objectEntries: "set (objectEntries obj) = set obj"
  by (auto simp: objectEntries_def)

lemma set_keepScored:
  "s \<in> set (keepScored stats) \<Longrightarrow> Some s \<in> set stats"
  by (auto simp: keepScored_def map_filter_def split: option.splits if_splits)

lemma users_buildLeaderboard:
  assumes "buildLeaderboard env d = Inr lb" "s \<in> set (users lb)"
  shows "\<exists>first rest. groupOf env d (UserStats.username s) = first # rest
           \<and> topTweet s = reduceViral first rest
           \<and> lastActive s = (if created_at first = [] then nowISO env else created_at first)"
proof -
  from assms(1) obtain g where g: "groupTweets [] (filter isValidTweet (currentWeek env d)) = Inr g"
    by (auto simp: buildLeaderboard_def currentWeek_def Let_def split: sum.splits)
  with assms(1) have "users lb = sortBy byScore
      (keepScored (map (userStat (toTime env) (nowISO env)
          (uniqueInOrder (map Tweet.username
             (getWeeklyTweets (toTime env) (subDays env) (nowPrevious env) d 1))))
        (objectEntries g)))"
    by (auto simp: buildLeaderboard_def currentWeek_def Let_def split: sum.splits)
  with assms(2) obtain e where e: "e \<in> set g"
    "userStat (toTime env) (nowISO env)
       (uniqueInOrder (map Tweet.username
          (getWeeklyTweets (toTime env) (subDays env) (nowPrevious env) d 1))) e = Some s"
    using set_keepScored by (fastforce simp: set_sortBy set_objectEntries)
  from groupTweets_groups [OF g e(1)]
  have grp: "snd e = groupOf env d (fst e)" by (simp add: groupOf_def)
  from e(2) obtain first rest where fr: "snd e = first # rest"
    by (cases "snd e") (auto simp: userStat_def)
  from e(2) fr have "UserStats.username s = fst e" "topTweet s = reduceViral first rest"
    "lastActive s = (if created_at first = [] then nowISO env else created_at first)"
    by (auto simp: userStat_def)
  with grp fr show ?thesis
    by (intro exI [of _ first] exI [of _ rest]) simp
qed

text \<open>
  Every user of a snapshot has a valid handle, so the Aggregator never scores a
  group with the empty handle.
\<close>

lemma snapshot_handles_valid:
  assumes "buildLeaderboard env d = Inr lb" "s \<in> set (users lb)"
  shows "UserStats.username s \<noteq> [] \<and> UserStats.username s \<noteq> ''unknown''"
proof -
  from users_buildLeaderboard [OF assms] obtain first rest where
    "groupOf env d (UserStats.username s) = first # rest" by blast
  then have "first \<in> set (groupOf env d (UserStats.username s))" by simp
  then have "Tweet.username first = UserStats.username s" "isValidTweet first"
    by (simp_all add: groupOf_def)
  then show ?thesis by (auto simp: isValidTweet_def)
qed

text \<open>
  Claim C10. The most viral record of a snapshot is the first record of the
  current week with the greatest \<open>likes + 2 * retweets\<close>, and the top record
  of every user of the snapshot is the first such record of the user's group.
\<close>

theorem ties_pick_earliest:
  assumes "buildLeaderboard env d = Inr lb" and "currentWeek env d \<noteq> []"
  shows "(\<exists>i. firstMaxAt (currentWeek env d) i \<and> mostViralTweet lb = currentWeek env d ! i)
         \<and> (\<forall>s \<in> set (users lb).
              \<exists>i. firstMaxAt (groupOf env d (UserStats.username s)) i
                  \<and> topTweet s = groupOf env d (UserStats.username s) ! i)"
proof
  obtain first rest where cw: "currentWeek env d = first # rest"
    using assms(2) by (cases "currentWeek env d") auto
  show "\<exists>i. firstMaxAt (currentWeek env d) i \<and> mostViralTweet lb = currentWeek env d ! i"
    unfolding mostViral_buildLeaderboard [OF assms(1) cw] cw by (rule reduceViral_firstMax)
next
  show "\<forall>s \<in> set (users lb).
          \<exists>i. firstMaxAt (groupOf env d (UserStats.username s)) i
              \<and> topTweet s = groupOf env d (UserStats.username s) ! i"
  proof
    fix s assume "s \<in> set (users lb)"
    from users_buildLeaderboard [OF assms(1) this] obtain first rest where
      fr: "groupOf env d (UserStats.username s) = first # rest"
          "topTweet s = reduceViral first rest" by blast
    show "\<exists>i. firstMaxAt (groupOf env d (UserStats.username s)) i
              \<and> topTweet s = groupOf env d (UserStats.username s) ! i"
      unfolding fr by (rule reduceViral_firstMax)
  qed
qed

theorem ties_pick_earliest_witness:
  "buildLeaderboard sampleEnv sampleStore = Inr sampleBoard
   \<and> currentWeek sampleEnv sampleStore \<noteq> []
   \<and> map engagement (currentWeek sampleEnv sampleStore) = [6, 4, 4, 6]
   \<and> (\<exists>i. firstMaxAt (currentWeek sampleEnv sampleStore) i
          \<and> mostViralTweet sampleBoard = currentWeek sampleEnv sampleStore ! i)
   \<and> mostViralTweet sampleBoard = currentWeek sampleEnv sampleStore ! 0"
proof -
  have ne: "currentWeek sampleEnv sampleStore \<noteq> []"
    by (simp add: sample_week)
  have "map engagement (currentWeek sampleEnv sampleStore) = [6, 4, 4, 6]"
    "mostViralTweet sampleBoard = currentWeek sampleEnv sampleStore ! 0"
    by (simp_all add: sample_week sampleBoard_def engagement_def)
  with ties_pick_earliest [OF sample_board ne] sample_board ne show ?thesis by blast
qed

text \<open>
  Claim C7. The last activity of a user should be the date of the user's most
  recent record of the current week. The code takes the date of the first
  record of the group, which is the oldest one when the records came in over
  several fetches: the group of alice holds her records of 05-01 and 05-03
  in this order, and her last activity is 05-01.
\<close>

theorem lastActive_first_of_group:
  "map created_at (groupOf sampleEnv sampleStore ''alice'')
     = [''2024-05-01T12:00:00.000Z'', ''2024-05-03T12:00:00.000Z'']
   \<and> map (\<lambda>s. (UserStats.username s, lastActive s))
        (case buildLeaderboard sampleEnv sampleStore of Inl e \<Rightarrow> [] | Inr lb \<Rightarrow> users lb)
     = [(''alice'', ''2024-05-01T12:00:00.000Z''), (''bob'', ''2024-05-02T12:00:00.000Z'')]"
  by (simp add: sample_board groupOf_def sample_week isValidTweet_def sampleBoard_def)

end
